theory Spec2Isabelle
  imports Main
begin

section \<open>Items and comment trees\<close>

text \<open>
  The \<open>time\<close> field of an item of the Hacker News API is a number (seconds since the
  epoch); the code also accepts a string.
\<close>

datatype time_field = TimeNumber int | TimeString string

text \<open>
  \<open>Story\<close> (\<open>types.ts\<close>): the fields \<open>utils.ts\<close> reads. An optional field is an
  \<open>option\<close>; \<open>id\<close>, \<open>type\<close>, \<open>by\<close> and \<open>text\<close> carry a prefix since the plain names
  are taken in Isabelle.
\<close>

record story =
  item_id :: nat
  item_type :: string
  item_by :: "string option"
  time :: "time_field option"
  score :: "int option"
  item_text :: "string option"
  kids :: "nat list option"
  deleted :: "bool option"
  dead :: "bool option"

text \<open>
  The instant \<open>Date.prototype.toISOString\<close> prints, as milliseconds since the epoch; the
  ISO-8601 text is a rendering of this number and is not spelled out.
\<close>

datatype timestamp = ISOString int

text \<open>
  \<open>Comment\<close>: the object \<open>{...comment, depth, time}\<close> and its optional \<open>replies\<close>.
  \<open>spread\<close> is the spread item; \<open>time_iso\<close> is the normalised \<open>time\<close> that overrides the
  item's own.
\<close>

datatype comment =
  Comment (spread: story) (depth: int) (time_iso: "timestamp option")
    (replies: "comment list option")

datatype error = RangeError

text \<open>The outcome of \<open>axiosInstance.get\<close>: it throws, or it answers with the item or null.\<close>

datatype axios_result = Throws | Data "story option"

type_synonym axios = "nat \<Rightarrow> axios_result"

section \<open>utils.ts\<close>

definition fetchItem :: "axios \<Rightarrow> nat \<Rightarrow> story option" where
  "fetchItem axiosInstance i =
     (case axiosInstance i of Throws \<Rightarrow> None | Data d \<Rightarrow> d)"

text \<open>\<open>!x\<close> on an optional boolean: an absent field is falsy.\<close>

definition truthy :: "bool option \<Rightarrow> bool" where
  "truthy b = (b = Some True)"

text \<open>
  The test \<open>comment.type === 'comment' && !comment.deleted && !comment.dead\<close> on a
  fetched item.
\<close>

definition live_comment :: "story \<Rightarrow> bool" where
  "live_comment comment =
     (item_type comment = ''comment'' \<and> \<not> truthy (deleted comment)
      \<and> \<not> truthy (dead comment))"

text \<open>\<open>c.score || 0\<close>.\<close>

definition score_or_0 :: "comment \<Rightarrow> int" where
  "score_or_0 c = (case score (spread c) of None \<Rightarrow> 0 | Some s \<Rightarrow> s)"

text \<open>
  \<open>toISOString\<close> throws a RangeError on an invalid date: a time value beyond
  8.64e15 ms in magnitude, or NaN.
\<close>

definition toISOString :: "int \<Rightarrow> error + timestamp" where
  "toISOString ms =
     (if \<bar>ms\<bar> \<le> 8640000000000000 then Inr (ISOString ms) else Inl RangeError)"

text \<open>
  The conditional that normalises \<open>time\<close>. \<open>Date.parse\<close> is the parameter \<open>parse\<close>;
  \<open>None\<close> is its NaN. An empty string is falsy.
\<close>

definition normalized_time ::
  "(string \<Rightarrow> int option) \<Rightarrow> time_field option \<Rightarrow> error + timestamp option" where
  "normalized_time parse t =
     (case t of
        Some (TimeNumber n) \<Rightarrow> map_sum id Some (toISOString (n * 1000))
      | Some (TimeString s) \<Rightarrow>
          (if s = [] then Inr None
           else (case parse s of
                   None \<Rightarrow> Inl RangeError
                 | Some ms \<Rightarrow> map_sum id Some (toISOString ms)))
      | None \<Rightarrow> Inr None)"

text \<open>
  \<open>Promise.all\<close>: the values in the positions of their promises, or a rejection as soon
  as one promise rejects.
\<close>

fun Promise_all :: "(error + 'a) list \<Rightarrow> error + 'a list" where
  "Promise_all [] = Inr []"
| "Promise_all (Inl e # ps) = Inl e"
| "Promise_all (Inr v # ps) =
     (case Promise_all ps of Inl e \<Rightarrow> Inl e | Inr vs \<Rightarrow> Inr (v # vs))"

text \<open>\<open>comments.filter(Boolean)\<close>: the non-null entries, in order.\<close>

fun filter_Boolean :: "'a option list \<Rightarrow> 'a list" where
  "filter_Boolean [] = []"
| "filter_Boolean (None # xs) = filter_Boolean xs"
| "filter_Boolean (Some x # xs) = x # filter_Boolean xs"

text \<open>
  \<open>Promise.all\<close> as the runtime performs it, for the order in which the promises
  settle (a list of their positions). A fulfilled promise stores its value in the slot of
  its position; the first rejected one rejects the whole. The result is the slots once
  every one is filled, and nothing (the promise stays pending) before that.
\<close>

fun settle ::
  "nat list \<Rightarrow> (error + 'a) list \<Rightarrow> 'a option list \<Rightarrow> error + 'a option list" where
  "settle [] ps slots = Inr slots"
| "settle (k # order) ps slots =
     (if k < length ps then
        (case ps ! k of
           Inl e \<Rightarrow> Inl e
         | Inr v \<Rightarrow> settle order ps (slots[k := Some v]))
      else settle order ps slots)"

definition Promise_all_in ::
  "nat list \<Rightarrow> (error + 'a) list \<Rightarrow> (error + 'a list) option" where
  "Promise_all_in order ps =
     (case settle order ps (replicate (length ps) None) of
        Inl e \<Rightarrow> Some (Inl e)
      | Inr slots \<Rightarrow>
          if list_all (\<lambda>v. v \<noteq> None) slots then Some (Inr (filter_Boolean slots))
          else None)"

text \<open>
  \<open>xs.sort((a, b) => (b.score || 0) - (a.score || 0))\<close>. \<open>Array.prototype.sort\<close> is
  stable (ECMAScript 2019), so it is the stable sort by descending score.
\<close>

definition sort_by_score :: "comment list \<Rightarrow> comment list" where
  "sort_by_score cs = sort_key (\<lambda>c. - score_or_0 c) cs"

text \<open>
  \<open>fetchComments\<close>; \<open>fetchNode\<close> is the async arrow function it maps over \<open>commentIds\<close>.
  The second component of the result lists the lookups issued, one batch of ids for each
  call of \<open>fetchComments\<close> that reaches \<open>Promise.all\<close>: every callback starts with
  \<open>fetchItem\<close> of its id, so the batch of a call is its \<open>commentIds\<close>; the batches of the
  recursive calls follow. The callbacks of a rejected \<open>Promise.all\<close> still run to their
  end, so their lookups are listed too.
\<close>

function fetchComments ::
  "axios \<Rightarrow> (string \<Rightarrow> int option) \<Rightarrow> nat list \<Rightarrow> int \<Rightarrow> int \<Rightarrow> int
     \<Rightarrow> (error + comment list) \<times> nat list list"
and fetchNode ::
  "axios \<Rightarrow> (string \<Rightarrow> int option) \<Rightarrow> nat \<Rightarrow> int \<Rightarrow> int \<Rightarrow> int
     \<Rightarrow> (error + comment option) \<times> nat list list"
where
  "fetchComments axiosInstance parse commentIds maxDepth minScore currentDepth =
     (if currentDepth \<ge> maxDepth \<or> length commentIds = 0 then (Inr [], [])
      else
        let rs = map (\<lambda>i. fetchNode axiosInstance parse i maxDepth minScore currentDepth)
                   commentIds
        in (case Promise_all (map fst rs) of
              Inl e \<Rightarrow> Inl e
            | Inr comments \<Rightarrow> Inr (sort_by_score (filter_Boolean comments)),
            commentIds # concat (map snd rs)))"
| "fetchNode axiosInstance parse i maxDepth minScore currentDepth =
     (case fetchItem axiosInstance i of
        None \<Rightarrow> (Inr None, [])
      | Some comment \<Rightarrow>
          if live_comment comment then
            (case normalized_time parse (time comment) of
               Inl e \<Rightarrow> (Inl e, [])
             | Inr t \<Rightarrow>
                 (case kids comment of
                    None \<Rightarrow> (Inr (Some (Comment comment currentDepth t None)), [])
                  | Some ks \<Rightarrow>
                      if length ks > 0 \<and> currentDepth < maxDepth - 1 then
                        (case fetchComments axiosInstance parse (take 10 ks) maxDepth
                                minScore (currentDepth + 1) of
                           (Inl e, reqs) \<Rightarrow> (Inl e, reqs)
                         | (Inr childComments, reqs) \<Rightarrow>
                             (Inr (Some (Comment comment currentDepth t
                                           (Some (sort_by_score childComments)))),
                              reqs))
                      else (Inr (Some (Comment comment currentDepth t None)), [])))
          else (Inr None, []))"
  by pat_completeness auto
termination
  by (relation "measure (\<lambda>x. case x of
          Inl (_, _, _, maxDepth, _, currentDepth) \<Rightarrow> 2 * nat (maxDepth - currentDepth) + 1
        | Inr (_, _, _, maxDepth, _, currentDepth) \<Rightarrow> 2 * nat (maxDepth - currentDepth))")
     auto

section \<open>utils.ts: formatCommentsAsText\<close>

text \<open>
  Text is a list of characters. The patterns and the markup they look for are ASCII; the
  emoji of the report are written as their UTF-8 bytes. \<open>\s\<close> is the ASCII white space
  (the Unicode spaces JavaScript adds to it are outside this model).
\<close>

definition speech_balloon :: string where
  "speech_balloon = [CHR 0xF0, CHR 0x9F, CHR 0x92, CHR 0xAC]"

definition arrow_down_right :: string where
  "arrow_down_right = [CHR 0xE2, CHR 0x86, CHR 0xB3]"

definition bar_chart :: string where
  "bar_chart = [CHR 0xF0, CHR 0x9F, CHR 0x93, CHR 0x8A]"

definition is_space :: "char \<Rightarrow> bool" where
  "is_space c = (c \<in> set [CHR '' '', CHR 0x09, CHR 0x0A, CHR 0x0B, CHR 0x0C, CHR 0x0D])"

text \<open>A number in a template literal.\<close>

fun show_nat :: "nat \<Rightarrow> string" where
  "show_nat n =
     (if n < 10 then [''0123456789'' ! n]
      else show_nat (n div 10) @ [''0123456789'' ! (n mod 10)])"

definition show_int :: "int \<Rightarrow> string" where
  "show_int i = (if i < 0 then ''-'' @ show_nat (nat (- i)) else show_nat (nat i))"

text \<open>\<open>'s'.repeat(n)\<close>, \<open>split\<close> at a character, and \<open>join\<close>.\<close>

definition repeat :: "string \<Rightarrow> nat \<Rightarrow> string" where
  "repeat s n = concat (replicate n s)"

fun split :: "char \<Rightarrow> string \<Rightarrow> string list" where
  "split sep [] = [[]]"
| "split sep (c # cs) =
     (if c = sep then [] # split sep cs
      else (case split sep cs of [] \<Rightarrow> [[c]] | l # ls \<Rightarrow> (c # l) # ls))"

fun join :: "string \<Rightarrow> string list \<Rightarrow> string" where
  "join sep [] = []"
| "join sep [l] = l"
| "join sep (l # k # ls) = l @ sep @ join sep (k # ls)"

text \<open>
  \<open>s.replace(/re/g, rep)\<close> for a pattern that matches no empty string: \<open>m\<close> gives the
  length of the match of the pattern at the start of a text, if there is one. The scan
  goes left to right and goes on behind each match.
\<close>

function replace_matches :: "(string \<Rightarrow> nat option) \<Rightarrow> string \<Rightarrow> string \<Rightarrow> string" where
  "replace_matches m rep [] = []"
| "replace_matches m rep (c # cs) =
     (case m (c # cs) of
        None \<Rightarrow> c # replace_matches m rep cs
      | Some n \<Rightarrow>
          if n = 0 then c # replace_matches m rep cs
          else rep @ replace_matches m rep (drop n (c # cs)))"
  by pat_completeness auto
termination
  by (relation "measure (\<lambda>(m, rep, s). length s)") auto

text \<open>A pattern of plain characters, such as \<open>/&quot;/\<close>.\<close>

definition literal :: "string \<Rightarrow> string \<Rightarrow> nat option" where
  "literal pat s = (if take (length pat) s = pat then Some (length pat) else None)"

text \<open>
  The pattern of an opening anchor tag: \<open><a href=\<close> and a double quote, everything up to
  the next double quote, everything up to the next \<open>>\<close>. Neither starred class can give
  up a character to let the rest match, so there is one way to match at a position, or
  none.
\<close>

definition anchor_tag :: "string \<Rightarrow> nat option" where
  "anchor_tag s =
     (let opening = ''<a href='' @ [CHR 0x22]; s1 = drop (length opening) s in
      if take (length opening) s = opening \<and> CHR 0x22 \<in> set s1 then
        (let href = takeWhile (\<lambda>c. c \<noteq> CHR 0x22) s1;
             s2 = drop (length href + 1) s1 in
         if CHR ''>'' \<in> set s2 then
           Some (length opening + length href + 1
                 + length (takeWhile (\<lambda>c. c \<noteq> CHR ''>'') s2) + 1)
         else None)
      else None)"

text \<open>\<open>/<[^>]*>/\<close>: from a \<open><\<close> to the next \<open>>\<close>.\<close>

definition any_tag :: "string \<Rightarrow> nat option" where
  "any_tag s =
     (case s of
        [] \<Rightarrow> None
      | c # cs \<Rightarrow>
          if c = CHR ''<'' \<and> CHR ''>'' \<in> set cs
          then Some (length (takeWhile (\<lambda>c. c \<noteq> CHR ''>'') cs) + 2)
          else None)"

text \<open>
  \<open>/\n\s*\n/\<close>: a newline, then the white space that follows up to its last newline
  (the star is greedy and gives characters back until a newline follows).
\<close>

definition blank_lines :: "string \<Rightarrow> nat option" where
  "blank_lines s =
     (case s of
        [] \<Rightarrow> None
      | c # cs \<Rightarrow>
          (let ws = takeWhile is_space cs in
           if c = CHR 0x0A \<and> CHR 0x0A \<in> set ws
           then Some (1 + length ws - length (takeWhile (\<lambda>c. c \<noteq> CHR 0x0A) (rev ws)))
           else None))"

text \<open>The chain of replacements that gives \<open>cleanText\<close>.\<close>

definition cleanText :: "string \<Rightarrow> string" where
  "cleanText text0 =
     replace_matches blank_lines [CHR 0x0A, CHR 0x0A]
       (replace_matches any_tag []
         (replace_matches (literal ''</a>'') []
           (replace_matches anchor_tag []
             (replace_matches (literal ''&lt;'') ''<''
               (replace_matches (literal ''&gt;'') ''>''
                 (replace_matches (literal ''&quot;'') [CHR 0x22]
                   (replace_matches (literal ''&#x27;'') [CHR 0x27]
                     (replace_matches (literal ''&#x2F;'') ''/'' text0))))))))"

text \<open>
  \<open>formatComment\<close>. Its \<open>depth\<close> is the depth of the recursion of the renderer, not the
  field of the node. An absent \<open>by\<close> prints as \<open>undefined\<close>; a score that is absent or 0
  prints nothing.
\<close>

fun formatComment :: "comment \<Rightarrow> nat \<Rightarrow> string" where
  "formatComment (Comment c d t r) depth0 =
     (let indent = repeat ''  '' depth0;
          depthIndicator =
            (if depth0 = 0 then speech_balloon else repeat arrow_down_right depth0);
          scoreText =
            (case score c of
               None \<Rightarrow> []
             | Some n \<Rightarrow> if n = 0 then [] else '' ('' @ show_int n @ '' points)'');
          cleaned = cleanText (case item_text c of None \<Rightarrow> [] | Some x \<Rightarrow> x);
          result =
            indent @ depthIndicator @ '' **''
            @ (case item_by c of None \<Rightarrow> ''undefined'' | Some b \<Rightarrow> b) @ ''**''
            @ scoreText @ [CHR 0x0A]
            @ indent @ ''   ''
            @ join ([CHR 0x0A] @ indent @ ''   '') (split (CHR 0x0A) cleaned)
            @ [CHR 0x0A, CHR 0x0A]
      in result @
         (case r of
            None \<Rightarrow> []
          | Some rs \<Rightarrow> concat (map (\<lambda>reply. formatComment reply (depth0 + 1)) rs)))"

definition formatCommentsAsText :: "comment list \<Rightarrow> string \<Rightarrow> int \<Rightarrow> int \<Rightarrow> string" where
  "formatCommentsAsText comments storyTitle storyId totalComments =
     (let output =
            ''# Hacker News Comments for Story '' @ show_int storyId @ [CHR 0x0A]
            @ ''## '' @ [CHR 0x22] @ storyTitle @ [CHR 0x22, CHR 0x0A]
            @ bar_chart @ '' Total Comments: '' @ show_int totalComments
            @ '' | Showing: '' @ show_nat (length comments) @ [CHR 0x0A, CHR 0x0A]
      in if length comments = 0
         then output @ ''No comments found matching the criteria.'' @ [CHR 0x0A]
         else output @ ''---'' @ [CHR 0x0A, CHR 0x0A]
              @ concat (map (\<lambda>comment.
                   formatComment comment 0 @ ''---'' @ [CHR 0x0A, CHR 0x0A]) comments))"

section \<open>fetcher.ts\<close>

text \<open>
  \<open>String.prototype.substring\<close>: both indices are clamped to the text, and swapped when
  the first is the larger. A text is a list of code units of any type.
\<close>

definition substring :: "'c list \<Rightarrow> int \<Rightarrow> int \<Rightarrow> 'c list" where
  "substring s indexStart indexEnd =
     (let len = int (length s);
          finalStart = min (max indexStart 0) len;
          finalEnd = min (max indexEnd 0) len;
          from = min finalStart finalEnd;
          to = max finalStart finalEnd
      in take (nat (to - from)) (drop (nat from) s))"

definition applyLengthLimits :: "'c list \<Rightarrow> int \<Rightarrow> int \<Rightarrow> 'c list" where
  "applyLengthLimits text0 maxLength startIndex =
     (if startIndex \<ge> int (length text0) then []
      else
        let end0 = min (startIndex + maxLength) (int (length text0))
        in substring text0 startIndex end0)"

record RequestPayload =
  url :: string
  headers :: "(string \<rightharpoonup> string) option"
  max_length :: "int option"
  start_index :: "int option"

text \<open>
  What \<open>fetch\<close> gives: a rejection (with the message of its Error, or a value that is no
  Error), or a response. The body of a response is taken to be readable.
\<close>

record http_response =
  ok :: bool
  status :: nat
  body :: string

datatype fetch_result = Rejected "string option" | Resolved http_response

type_synonym network = "string \<Rightarrow> (string \<rightharpoonup> string) \<Rightarrow> fetch_result"

text \<open>The result of a tool: the text of its one content entry, and \<open>isError\<close>.\<close>

record tool_result =
  content :: string
  isError :: bool

definition user_agent :: string where
  "user_agent =
     ''Mozilla/5.0 (Windows NT 10.0; Win64; x64) AppleWebKit/537.36 (KHTML, like Gecko) Chrome/120.0.0.0 Safari/537.36''"

definition blocked_message :: "string \<Rightarrow> string" where
  "blocked_message u =
     ''Fetcher blocked an attempt to fetch a private IP '' @ u
     @ ''. This is to prevent a security vulnerability where a local MCP could fetch privileged local IPs and exfiltrate data.''"

text \<open>
  \<open>Fetcher._fetch\<close>. The package private-ip is the parameter \<open>is_ip_private\<close> (it answers
  true, false or undefined), \<open>fetch\<close> the parameter \<open>fetch0\<close>. The result is the message
  of the Error thrown or the response, and the list of the urls requested.
\<close>

definition Fetcher_fetch ::
  "(string \<Rightarrow> bool option) \<Rightarrow> network \<Rightarrow> RequestPayload
     \<Rightarrow> (string + http_response) \<times> string list" where
  "Fetcher_fetch is_ip_private fetch0 payload =
     (if truthy (is_ip_private (url payload)) then
        (Inl (''Failed to fetch '' @ url payload @ '': '' @ blocked_message (url payload)),
         [])
      else
        (case fetch0 (url payload)
                ([''User-Agent'' \<mapsto> user_agent]
                 ++ (case headers payload of None \<Rightarrow> Map.empty | Some h \<Rightarrow> h)) of
           Rejected e \<Rightarrow>
             (Inl (''Failed to fetch '' @ url payload @ '': ''
                   @ (case e of None \<Rightarrow> ''Unknown error'' | Some message \<Rightarrow> message)),
              [url payload])
         | Resolved response \<Rightarrow>
             if \<not> ok response then
               (Inl (''Failed to fetch '' @ url payload @ '': '' @ ''HTTP error: ''
                     @ show_nat (status response)),
                [url payload])
             else (Inr response, [url payload])))"

text \<open>
  The four modes. Each is \<open>_fetch\<close>, a conversion of the body, and the window. The
  conversions of \<open>json\<close> (\<open>response.json\<close> and \<open>JSON.stringify\<close>), of \<open>txt\<close> (JSDOM, the
  text of the body, white space collapsed) and of \<open>markdown\<close> (JSDOM, the content
  element, Turndown, the clean-up of empty lines and links) are parameters: they give the
  text, or the message of the Error they throw.
\<close>

definition Fetcher_mode ::
  "(string \<Rightarrow> string + string) \<Rightarrow> (string \<Rightarrow> bool option) \<Rightarrow> network \<Rightarrow> RequestPayload
     \<Rightarrow> tool_result \<times> string list" where
  "Fetcher_mode convert is_ip_private fetch0 requestPayload =
     (case Fetcher_fetch is_ip_private fetch0 requestPayload of
        (Inl message, requests) \<Rightarrow> (\<lparr>content = message, isError = True\<rparr>, requests)
      | (Inr response, requests) \<Rightarrow>
          (case convert (body response) of
             Inl message \<Rightarrow> (\<lparr>content = message, isError = True\<rparr>, requests)
           | Inr converted \<Rightarrow>
               (\<lparr>content =
                   applyLengthLimits converted
                     (case max_length requestPayload of None \<Rightarrow> 5000 | Some m \<Rightarrow> m)
                     (case start_index requestPayload of None \<Rightarrow> 0 | Some s \<Rightarrow> s),
                 isError = False\<rparr>,
                requests)))"

definition Fetcher_html ::
  "(string \<Rightarrow> bool option) \<Rightarrow> network \<Rightarrow> RequestPayload \<Rightarrow> tool_result \<times> string list" where
  "Fetcher_html = Fetcher_mode Inr"

definition Fetcher_json ::
  "(string \<Rightarrow> string + string) \<Rightarrow> (string \<Rightarrow> bool option) \<Rightarrow> network \<Rightarrow> RequestPayload
     \<Rightarrow> tool_result \<times> string list" where
  "Fetcher_json parse_stringify = Fetcher_mode parse_stringify"

definition Fetcher_txt ::
  "(string \<Rightarrow> string + string) \<Rightarrow> (string \<Rightarrow> bool option) \<Rightarrow> network \<Rightarrow> RequestPayload
     \<Rightarrow> tool_result \<times> string list" where
  "Fetcher_txt body_text = Fetcher_mode body_text"

definition Fetcher_markdown ::
  "(string \<Rightarrow> string + string) \<Rightarrow> (string \<Rightarrow> bool option) \<Rightarrow> network \<Rightarrow> RequestPayload
     \<Rightarrow> tool_result \<times> string list" where
  "Fetcher_markdown turndown = Fetcher_mode turndown"

text \<open>
  A stand-in for private-ip, which is a dependency and not code of the repository: as
  the package documents, it classifies an IP address and answers undefined for a text
  that is none. The stand-in reads the dotted decimal IPv4 addresses.
\<close>

definition is_digit :: "char \<Rightarrow> bool" where
  "is_digit c = (c \<in> set ''0123456789'')"

definition read_nat :: "string \<Rightarrow> nat" where
  "read_nat s = foldl (\<lambda>n c. 10 * n + (of_char c - 48)) 0 s"

definition ipv4_octets :: "string \<Rightarrow> nat list option" where
  "ipv4_octets s =
     (let parts = split (CHR ''.'') s in
      if length parts = 4
         \<and> list_all (\<lambda>part. part \<noteq> [] \<and> length part \<le> 3 \<and> list_all is_digit part
                        \<and> read_nat part \<le> 255) parts
      then Some (map read_nat parts) else None)"

definition private_ip_standin :: "string \<Rightarrow> bool option" where
  "private_ip_standin s =
     (case ipv4_octets s of
        Some (a # b # rest) \<Rightarrow>
          Some (a = 0 \<or> a = 10 \<or> a = 127 \<or> (a = 100 \<and> 64 \<le> b \<and> b \<le> 127)
                \<or> (a = 169 \<and> b = 254) \<or> (a = 172 \<and> 16 \<le> b \<and> b \<le> 31)
                \<or> (a = 192 \<and> b = 168) \<or> 240 \<le> a)
      | _ \<Rightarrow> None)"

text \<open>A network in which every request is answered, with the url in the body.\<close>

definition open_network :: network where
  "open_network u hs =
     Resolved \<lparr>ok = True, status = 200, body = ''<main>answer of '' @ u @ ''</main>''\<rparr>"

definition loopback_admin :: RequestPayload where
  "loopback_admin =
     \<lparr>url = ''http://127.0.0.1/admin'', headers = None, max_length = None,
      start_index = None\<rparr>"

section \<open>Comment trees as the claims speak of them\<close>

text \<open>Every node of the subtree at a node, the node first.\<close>

fun nodes :: "comment \<Rightarrow> comment list" where
  "nodes (Comment s d t r) =
     Comment s d t r # (case r of None \<Rightarrow> [] | Some rs \<Rightarrow> concat (map nodes rs))"

text \<open>Every node anywhere in a returned sequence of roots.\<close>

definition all_nodes :: "comment list \<Rightarrow> comment list" where
  "all_nodes cs = concat (map nodes cs)"

text \<open>A property of every node of a subtree, by recursion over the subtree.\<close>

fun tree_all :: "(comment \<Rightarrow> bool) \<Rightarrow> comment \<Rightarrow> bool" where
  "tree_all Q (Comment s d t r) =
     (Q (Comment s d t r) \<and>
      (case r of None \<Rightarrow> True | Some rs \<Rightarrow> list_all (tree_all Q) rs))"

text \<open>
  The outcome \<open>cs\<close> of a call is positional: in whatever order the lookups of its ids
  complete, \<open>Promise.all\<close> gives the same slots, one for each id in the order of \<open>ids\<close>;
  \<open>cs\<close> is the kept nodes of the slots sorted by score; and the nodes of one score (a
  missing score being 0) stand in \<open>cs\<close> in the order of their slots.
\<close>

definition positional_outcome ::
  "axios \<Rightarrow> (string \<Rightarrow> int option) \<Rightarrow> int \<Rightarrow> int \<Rightarrow> nat list \<Rightarrow> int \<Rightarrow> comment list
     \<Rightarrow> bool" where
  "positional_outcome ax p D M ids d cs =
     (\<exists>slots.
        (\<forall>order. distinct order \<and> set order = {0..<length ids} \<longrightarrow>
           Promise_all_in order (map (\<lambda>i. fst (fetchNode ax p i D M d)) ids)
             = Some (Inr slots)) \<and>
        cs = sort_by_score (filter_Boolean slots) \<and>
        (\<forall>k. filter (\<lambda>c. score_or_0 c = k) cs =
              filter (\<lambda>c. score_or_0 c = k) (filter_Boolean slots)))"

section \<open>An example store\<close>

text \<open>
  A small thread. Item 1 has four kids, of which 4 is deleted, 5 is a story and the lookup
  of 6 throws; 7 does not exist; 8 has no score and an empty list of kids; 9 is dead.
\<close>

definition demo_item :: "nat \<Rightarrow> string \<Rightarrow> int option \<Rightarrow> nat list option \<Rightarrow> story" where
  "demo_item i ty sc ks =
     \<lparr>item_id = i, item_type = ty, item_by = Some ''pg'',
      time = Some (TimeNumber 1700000000), score = sc, item_text = None, kids = ks,
      deleted = None, dead = None\<rparr>"

definition demo_axios :: axios where
  "demo_axios i =
     (if i = 1 then Data (Some (demo_item 1 ''comment'' (Some 5) (Some [3, 4, 5, 6])))
      else if i = 2 then Data (Some (demo_item 2 ''comment'' (Some 9) None))
      else if i = 3 then Data (Some (demo_item 3 ''comment'' (Some 1) (Some [10])))
      else if i = 4 then
        Data (Some ((demo_item 4 ''comment'' (Some 7) None)\<lparr>deleted := Some True\<rparr>))
      else if i = 5 then Data (Some (demo_item 5 ''story'' (Some 100) None))
      else if i = 6 then Throws
      else if i = 8 then Data (Some (demo_item 8 ''comment'' None (Some [])))
      else if i = 9 then
        Data (Some ((demo_item 9 ''comment'' (Some 3) None)\<lparr>dead := Some True\<rparr>))
      else if i = 10 then Data (Some (demo_item 10 ''comment'' (Some 2) None))
      else Data None)"

text \<open>No item of the examples has a string for its time.\<close>

definition no_parse :: "string \<Rightarrow> int option" where
  "no_parse s = None"

definition demo_node :: "story \<Rightarrow> int \<Rightarrow> comment list option \<Rightarrow> comment" where
  "demo_node s d r = Comment s d (Some (ISOString 1700000000000)) r"

text \<open>The tree of the roots 1, 2, 7, 8, 9 of the example store with \<open>maxDepth = 2\<close>.\<close>

definition demo_tree :: "comment list" where
  "demo_tree =
     [demo_node (demo_item 2 ''comment'' (Some 9) None) 0 None,
      demo_node (demo_item 1 ''comment'' (Some 5) (Some [3, 4, 5, 6])) 0
        (Some [demo_node (demo_item 3 ''comment'' (Some 1) (Some [10])) 1 None]),
      demo_node (demo_item 8 ''comment'' None (Some [])) 0 None]"


text \<open>The id, the score and the depth of a node.\<close>

definition summary :: "comment \<Rightarrow> nat \<times> int option \<times> int" where
  "summary c = (item_id (spread c), score (spread c), depth c)"

text \<open>A store in which every id is a live comment with score 1 (odd id) or 0.\<close>

definition tie_axios :: axios where
  "tie_axios i = Data (Some (demo_item i ''comment'' (Some (int (i mod 2))) None))"

definition tie_tree :: "comment list" where
  "tie_tree =
     [demo_node (demo_item 1 ''comment'' (Some 1) None) 0 None,
      demo_node (demo_item 3 ''comment'' (Some 1) None) 0 None,
      demo_node (demo_item 4 ''comment'' (Some 0) None) 0 None,
      demo_node (demo_item 2 ''comment'' (Some 0) None) 0 None]"



section \<open>Lemmas about \<open>fetchComments\<close>\<close>

declare fetchComments.simps [simp del] fetchNode.simps [simp del]

lemma tree_all_nodes: "tree_all Q c \<longleftrightarrow> (\<forall>n \<in> set (nodes c). Q n)"
  by (induction Q c rule: tree_all.induct) (auto simp: list_all_iff split: option.splits)

lemma all_nodes_tree_all:
  "(\<forall>n \<in> set (all_nodes cs). Q n) \<longleftrightarrow> (\<forall>c \<in> set cs. tree_all Q c)"
  by (auto simp: all_nodes_def tree_all_nodes)

lemma Promise_all_map_Inr [simp]: "Promise_all (map Inr vs) = Inr vs"
  by (induction vs) auto

lemma Promise_all_Inr: "Promise_all ps = Inr vs \<longleftrightarrow> ps = map Inr vs"
proof
  show "Promise_all ps = Inr vs \<Longrightarrow> ps = map Inr vs"
    by (induction ps arbitrary: vs rule: Promise_all.induct) (auto split: sum.splits)
qed simp

lemma Promise_all_append:
  "Promise_all (as @ bs) =
     (case Promise_all as of
        Inl e \<Rightarrow> Inl e
      | Inr vs \<Rightarrow> (case Promise_all bs of Inl e \<Rightarrow> Inl e | Inr ws \<Rightarrow> Inr (vs @ ws)))"
  by (induction as rule: Promise_all.induct) (auto split: sum.splits)

lemma set_filter_Boolean: "set (filter_Boolean xs) = {x. Some x \<in> set xs}"
  by (induction xs rule: filter_Boolean.induct) auto


lemma filter_Boolean_append:
  "filter_Boolean (xs @ ys) = filter_Boolean xs @ filter_Boolean ys"
  by (induction xs rule: filter_Boolean.induct) auto

lemma sorted_sort_by_score:
  "sorted_wrt (\<lambda>a b. score_or_0 a \<ge> score_or_0 b) (sort_by_score cs)"
proof -
  have "sorted (map (\<lambda>c. - score_or_0 c) (sort_by_score cs))"
    unfolding sort_by_score_def by (rule sorted_sort_key)
  then show ?thesis by (simp add: sorted_map)
qed

text \<open>When a call returns a sequence, and what the sequence is.\<close>

lemma fetchComments_Inr:
  "fst (fetchComments ax p ids D M d) = Inr cs \<longleftrightarrow>
     (if d \<ge> D \<or> ids = [] then cs = []
      else \<exists>vs. map (\<lambda>i. fst (fetchNode ax p i D M d)) ids = map Inr vs
                \<and> cs = sort_by_score (filter_Boolean vs))"
  by (auto simp: fetchComments.simps Let_def Promise_all_Inr o_def split: sum.splits)

lemma fetchNode_Inr_Some:
  "fst (fetchNode ax p i D M d) = Inr (Some c) \<longleftrightarrow>
     (\<exists>item t. fetchItem ax i = Some item \<and> live_comment item
        \<and> normalized_time p (time item) = Inr t
        \<and> (case kids item of
              None \<Rightarrow> c = Comment item d t None
            | Some ks \<Rightarrow>
                if length ks > 0 \<and> d < D - 1
                then \<exists>rs. fst (fetchComments ax p (take 10 ks) D M (d + 1)) = Inr rs
                        \<and> c = Comment item d t (Some (sort_by_score rs))
                else c = Comment item d t None))"
  by (auto simp: fetchNode.simps split: option.splits sum.splits prod.splits)

lemma fetchComments_member:
  assumes "fst (fetchComments ax p ids D M d) = Inr cs" and "c \<in> set cs"
  shows "d < D \<and> (\<exists>i \<in> set ids. fst (fetchNode ax p i D M d) = Inr (Some c))"
proof -
  from assms have live: "\<not> (d \<ge> D \<or> ids = [])"
    by (auto simp: fetchComments_Inr split: if_splits)
  with assms(1) obtain vs where
    vs: "map (\<lambda>i. fst (fetchNode ax p i D M d)) ids = map Inr vs"
    and cs: "cs = sort_by_score (filter_Boolean vs)"
    by (auto simp: fetchComments_Inr)
  from assms(2) cs have "Some c \<in> set vs"
    by (simp add: sort_by_score_def set_filter_Boolean)
  then have "Inr (Some c) \<in> set (map (\<lambda>i. fst (fetchNode ax p i D M d)) ids)"
    unfolding vs by simp
  with live show ?thesis by auto
qed

lemma fetch_roots_depth:
  assumes "fst (fetchComments ax p ids D M d) = Inr cs" and "c \<in> set cs"
  shows "depth c = d"
proof -
  from fetchComments_member [OF assms] obtain i where
    "fst (fetchNode ax p i D M d) = Inr (Some c)" by blast
  then show ?thesis
    by (auto simp: fetchNode_Inr_Some split: option.splits if_splits)
qed

lemma fetchComments_sorted:
  assumes "fst (fetchComments ax p ids D M d) = Inr cs"
  shows "sorted_wrt (\<lambda>a b. score_or_0 a \<ge> score_or_0 b) cs"
  using assms by (auto simp: fetchComments_Inr sorted_sort_by_score split: if_splits)


text \<open>
  A property holds of every node of a returned tree when it holds of a node without
  replies, and of a node with replies whenever it holds throughout the replies. The
  recursion of \<open>fetchComments\<close> goes up in \<open>currentDepth\<close>, so the induction is on
  \<open>maxDepth - currentDepth\<close>.
\<close>

lemma fetch_tree_all:
  assumes leaf: "\<And>i item t d. d0 \<le> d \<Longrightarrow> d < D \<Longrightarrow> fetchItem ax i = Some item \<Longrightarrow>
            live_comment item \<Longrightarrow> normalized_time p (time item) = Inr t \<Longrightarrow>
            \<not> (case kids item of None \<Rightarrow> False | Some ks \<Rightarrow> length ks > 0 \<and> d < D - 1) \<Longrightarrow>
            Q (Comment item d t None)"
    and inner: "\<And>i item t d ks rs. d0 \<le> d \<Longrightarrow> d < D - 1 \<Longrightarrow> fetchItem ax i = Some item \<Longrightarrow>
            live_comment item \<Longrightarrow> normalized_time p (time item) = Inr t \<Longrightarrow>
            kids item = Some ks \<Longrightarrow> ks \<noteq> [] \<Longrightarrow>
            fst (fetchComments ax p (take 10 ks) D M (d + 1)) = Inr rs \<Longrightarrow>
            \<forall>r \<in> set rs. tree_all Q r \<Longrightarrow>
            Q (Comment item d t (Some (sort_by_score rs)))"
    and d0: "d0 \<le> d"
    and res: "fst (fetchComments ax p ids D M d) = Inr cs"
    and mem: "c \<in> set cs"
  shows "tree_all Q c"
  using d0 res mem
proof (induction "nat (D - d)" arbitrary: d ids cs c rule: less_induct)
  case less
  from fetchComments_member [OF less.prems(2,3)] obtain i where
    dD: "d < D" and node: "fst (fetchNode ax p i D M d) = Inr (Some c)" by blast
  from node obtain item t where it: "fetchItem ax i = Some item" "live_comment item"
      "normalized_time p (time item) = Inr t"
    and c: "(case kids item of
              None \<Rightarrow> c = Comment item d t None
            | Some ks \<Rightarrow>
                if length ks > 0 \<and> d < D - 1
                then \<exists>rs. fst (fetchComments ax p (take 10 ks) D M (d + 1)) = Inr rs
                        \<and> c = Comment item d t (Some (sort_by_score rs))
                else c = Comment item d t None)"
    unfolding fetchNode_Inr_Some by blast
  show ?case
  proof (cases "case kids item of None \<Rightarrow> False | Some ks \<Rightarrow> length ks > 0 \<and> d < D - 1")
    case False
    with c have "c = Comment item d t None" by (auto split: option.splits)
    with leaf [OF less.prems(1) dD it False] show ?thesis by simp
  next
    case True
    then obtain ks where ks: "kids item = Some ks" "ks \<noteq> []" "d < D - 1"
      by (auto split: option.splits)
    with c obtain rs where
      rs: "fst (fetchComments ax p (take 10 ks) D M (d + 1)) = Inr rs"
      and ceq: "c = Comment item d t (Some (sort_by_score rs))" by auto
    have "nat (D - (d + 1)) < nat (D - d)" "d0 \<le> d + 1"
      using dD less.prems(1) by auto
    from less.hyps [OF this(1) this(2) rs] have kidsQ: "\<forall>r \<in> set rs. tree_all Q r"
      by blast
    from inner [OF less.prems(1) ks(3) it ks(1,2) rs kidsQ] kidsQ ceq
    show ?thesis by (simp add: sort_by_score_def list_all_iff)
  qed
qed

text \<open>An id whose item is not kept leaves no trace in the result.\<close>

lemma fetchNode_dropped:
  assumes "case fetchItem ax i of None \<Rightarrow> True | Some item \<Rightarrow> \<not> live_comment item"
  shows "fetchNode ax p i D M d = (Inr None, [])"
  using assms by (auto simp: fetchNode.simps split: option.splits)

lemma fetchComments_skip_dropped:
  assumes "case fetchItem ax i of None \<Rightarrow> True | Some item \<Rightarrow> \<not> live_comment item"
  shows "fst (fetchComments ax p (xs @ i # ys) D M d) =
         fst (fetchComments ax p (xs @ ys) D M d)"
proof (cases "D \<le> d")
  case True
  then show ?thesis by (simp add: fetchComments.simps)
next
  case False
  let ?f = "\<lambda>i. fst (fetchNode ax p i D M d)"
  have i: "?f i = Inr None" using fetchNode_dropped [OF assms] by simp
  have "(case Promise_all (map ?f (xs @ i # ys)) of Inl e \<Rightarrow> Inl e
         | Inr comments \<Rightarrow> Inr (sort_by_score (filter_Boolean comments)))
      = (case Promise_all (map ?f (xs @ ys)) of Inl e \<Rightarrow> Inl e
         | Inr comments \<Rightarrow> Inr (sort_by_score (filter_Boolean comments)))"
    by (simp add: Promise_all_append i filter_Boolean_append split: sum.splits)
  moreover have "fst (fetchComments ax p (xs @ ys) D M d) = Inr []" if "xs @ ys = []"
    using that by (simp add: fetchComments.simps)
  moreover have "(case Promise_all (map ?f (xs @ ys)) of Inl e \<Rightarrow> Inl e
         | Inr comments \<Rightarrow> Inr (sort_by_score (filter_Boolean comments))) = Inr []"
    if "xs @ ys = []"
    using that by (simp add: sort_by_score_def)
  ultimately show ?thesis using False
    by (cases "xs @ ys = []") (simp_all add: fetchComments.simps Let_def o_def)
qed

text \<open>The lookups of a call: its own batch, then batches of at most ten ids.\<close>

lemma snd_fetchComments:
  "snd (fetchComments ax p ids D M d) =
     (if D \<le> d \<or> ids = [] then []
      else ids # concat (map (\<lambda>i. snd (fetchNode ax p i D M d)) ids))"
  by (simp add: fetchComments.simps Let_def o_def)

lemma snd_fetchNode_cases:
  "snd (fetchNode ax p i D M d) =
     (case fetchItem ax i of
        None \<Rightarrow> []
      | Some item \<Rightarrow>
          if live_comment item then
            (case normalized_time p (time item) of
               Inl e \<Rightarrow> []
             | Inr t \<Rightarrow>
                 (case kids item of
                    None \<Rightarrow> []
                  | Some ks \<Rightarrow>
                      if length ks > 0 \<and> d < D - 1
                      then snd (fetchComments ax p (take 10 ks) D M (d + 1))
                      else []))
          else [])"
  by (simp add: fetchNode.simps split: option.splits sum.splits prod.splits)

lemma snd_fetchNode:
  "snd (fetchNode ax p i D M d) = [] \<or>
   (\<exists>ks. d < D - 1 \<and> snd (fetchNode ax p i D M d) =
            snd (fetchComments ax p (take 10 ks) D M (d + 1)))"
  unfolding snd_fetchNode_cases by (auto split: option.splits sum.splits)

lemma batches_bounded:
  "b \<in> set (snd (fetchComments ax p ids D M d)) \<Longrightarrow> b = ids \<or> length b \<le> 10"
proof (induction "nat (D - d)" arbitrary: d ids b rule: less_induct)
  case less
  from less.prems have live: "\<not> (D \<le> d \<or> ids = [])"
    by (auto simp: snd_fetchComments split: if_splits)
  show ?case
  proof (cases "b = ids")
    case False
    with less.prems live obtain i where "b \<in> set (snd (fetchNode ax p i D M d))"
      by (auto simp: snd_fetchComments)
    with snd_fetchNode [of ax p i D M d] obtain ks where
      ks: "d < D - 1" "b \<in> set (snd (fetchComments ax p (take 10 ks) D M (d + 1)))"
      by auto
    then have "nat (D - (d + 1)) < nat (D - d)" by auto
    from less.hyps [OF this ks(2)] show ?thesis by auto
  qed simp
qed



text \<open>\<open>minScore\<close> is handed down and never read.\<close>

lemma minScore_unused:
  "fetchComments ax p ids D M d = fetchComments ax p ids D M' d"
proof (induction "nat (D - d)" arbitrary: d ids rule: less_induct)
  case less
  have node: "fetchNode ax p i D M d = fetchNode ax p i D M' d" if "d < D" for i
  proof -
    have "fetchComments ax p ks D M (d + 1) = fetchComments ax p ks D M' (d + 1)" for ks
      using that by (intro less.hyps) auto
    then show ?thesis
      by (simp add: fetchNode.simps split: option.splits sum.splits prod.splits)
  qed
  show ?case
  proof (cases "D \<le> d \<or> ids = []")
    case True
    then show ?thesis by (auto simp: fetchComments.simps)
  next
    case False
    then show ?thesis by (simp add: fetchComments.simps [of ax p ids D _ d] node)
  qed
qed

lemma demo_tree_fetched:
  "fst (fetchComments demo_axios no_parse [1, 2, 7, 8, 9] 2 M 0) = Inr demo_tree"
proof -
  have "fst (fetchComments demo_axios no_parse [1, 2, 7, 8, 9] 2 0 0) = Inr demo_tree"
    by code_simp
  then show ?thesis by (subst minScore_unused [where M' = 0])
qed

section \<open>Lemmas about \<open>Promise.all\<close>\<close>

lemma error_unique: "(e :: error) = e'"
  by (cases e; cases e') simp

lemma settle_fulfilled:
  assumes "ps = map Inr vs" and "length vals = length vs"
  shows "\<exists>vals'. settle order ps vals = Inr vals' \<and> length vals' = length vs \<and>
           (\<forall>k < length vs. vals' ! k = (if k \<in> set order then Some (vs ! k) else vals ! k))"
  using assms(2)
proof (induction order arbitrary: vals)
  case Nil
  then show ?case by simp
next
  case (Cons k order)
  show ?case
  proof (cases "k < length vs")
    case True
    have len: "length (vals[k := Some (vs ! k)]) = length vs" using Cons.prems by simp
    from Cons.IH [OF len] obtain vals' where
      v: "settle order ps (vals[k := Some (vs ! k)]) = Inr vals'" "length vals' = length vs"
        "\<forall>j < length vs. vals' ! j =
           (if j \<in> set order then Some (vs ! j) else vals[k := Some (vs ! k)] ! j)"
      by blast
    have "settle (k # order) ps vals = Inr vals'"
      using True v(1) assms(1) by simp
    moreover have "\<forall>j < length vs. vals' ! j =
        (if j \<in> set (k # order) then Some (vs ! j) else vals ! j)"
      using v(3) Cons.prems by (auto simp: nth_list_update)
    ultimately show ?thesis using v(2) by blast
  next
    case False
    from Cons.IH [OF Cons.prems] obtain vals' where
      v: "settle order ps vals = Inr vals'" "length vals' = length vs"
        "\<forall>j < length vs. vals' ! j = (if j \<in> set order then Some (vs ! j) else vals ! j)"
      by blast
    have "settle (k # order) ps vals = Inr vals'"
      using False v(1) assms(1) by simp
    moreover have "\<forall>j < length vs. vals' ! j =
        (if j \<in> set (k # order) then Some (vs ! j) else vals ! j)"
      using v(3) False by auto
    ultimately show ?thesis using v(2) by blast
  qed
qed

lemma settle_rejected:
  assumes "k \<in> set order" and "k < length ps" and "ps ! k = Inl e"
  shows "settle order ps vals = Inl RangeError"
  using assms(1)
proof (induction order arbitrary: vals)
  case Nil
  then show ?case by simp
next
  case (Cons j order)
  show ?case
  proof (cases "j < length ps")
    case True
    show ?thesis
    proof (cases "ps ! j")
      case (Inl e')
      with True show ?thesis by (simp add: error_unique [of e' RangeError])
    next
      case (Inr v)
      with assms(3) have "j \<noteq> k" by auto
      with Cons.prems have "k \<in> set order" by simp
      from Cons.IH [OF this] True Inr show ?thesis by simp
    qed
  next
    case False
    with assms(2) have "j \<noteq> k" by auto
    with Cons.prems have "k \<in> set order" by simp
    from Cons.IH [OF this] False show ?thesis by simp
  qed
qed

lemma filter_Boolean_map_Some [simp]: "filter_Boolean (map Some vs) = vs"
  by (induction vs) auto

lemma all_fulfilled_or_one_rejected:
  "(\<exists>vs. ps = map Inr vs) \<or> (\<exists>k e. k < length ps \<and> ps ! k = Inl e)"
proof (induction ps)
  case Nil
  then show ?case by simp
next
  case (Cons a ps)
  show ?case
  proof (cases a)
    case (Inl e)
    then have "0 < length (a # ps) \<and> (a # ps) ! 0 = Inl e" by simp
    then show ?thesis by blast
  next
    case (Inr v)
    from Cons.IH show ?thesis
    proof
      assume "\<exists>vs. ps = map Inr vs"
      then obtain vs where "ps = map Inr vs" ..
      with Inr have "a # ps = map Inr (v # vs)" by simp
      then show ?thesis by (intro disjI1 exI [of _ "v # vs"])
    next
      assume "\<exists>k e. k < length ps \<and> ps ! k = Inl e"
      then obtain k e where "k < length ps" "ps ! k = Inl e" by blast
      then have "Suc k < length (a # ps) \<and> (a # ps) ! Suc k = Inl e" by simp
      then show ?thesis by blast
    qed
  qed
qed

lemma Promise_all_rejected:
  assumes "k < length ps" and "ps ! k = Inl e"
  shows "Promise_all ps = Inl RangeError"
proof (cases "Promise_all ps")
  case (Inl e')
  then show ?thesis by (simp add: error_unique [of e' RangeError])
next
  case (Inr vs)
  then have "ps = map Inr vs" by (simp add: Promise_all_Inr)
  with assms show ?thesis by auto
qed

text \<open>The order in which the promises settle does not show in the result.\<close>

lemma Promise_all_in_any_order:
  assumes "set order = {0..<length ps}"
  shows "Promise_all_in order ps = Some (Promise_all ps)"
proof -
  from all_fulfilled_or_one_rejected [of ps] show ?thesis
  proof
    assume "\<exists>vs. ps = map Inr vs"
    then obtain vs where ps: "ps = map Inr vs" ..
    have "length (replicate (length ps) (None :: 'a option)) = length vs"
      by (simp add: ps)
    from settle_fulfilled [OF ps this, of order] obtain vals' where
      v: "settle order ps (replicate (length ps) None) = Inr vals'" "length vals' = length vs"
        "\<forall>k < length vs. vals' ! k =
           (if k \<in> set order then Some (vs ! k) else replicate (length ps) None ! k)"
      by blast
    from v(3) assms have "\<forall>k < length vs. vals' ! k = Some (vs ! k)"
      by (simp add: ps)
    with v(2) have "vals' = map Some vs"
      by (intro nth_equalityI) simp_all
    with v(1) show ?thesis
      by (simp add: Promise_all_in_def ps list_all_iff)
  next
    assume "\<exists>k e. k < length ps \<and> ps ! k = Inl e"
    then obtain k e where k: "k < length ps" "ps ! k = Inl e" by blast
    with assms have "k \<in> set order" by simp
    from settle_rejected [OF this k] Promise_all_rejected [OF k]
    show ?thesis by (simp add: Promise_all_in_def)
  qed
qed

lemma fetchComments_positional:
  assumes "fst (fetchComments ax p ids D M d) = Inr cs" and "d < D" and "ids \<noteq> []"
  shows "positional_outcome ax p D M ids d cs"
proof -
  let ?ps = "map (\<lambda>i. fst (fetchNode ax p i D M d)) ids"
  from assms obtain vs where vs: "?ps = map Inr vs"
    and cs: "cs = sort_by_score (filter_Boolean vs)"
    by (auto simp: fetchComments_Inr)
  have "Promise_all_in order ?ps = Some (Inr vs)"
    if "distinct order \<and> set order = {0..<length ids}" for order
  proof -
    from that have "set order = {0..<length ?ps}" by simp
    from Promise_all_in_any_order [OF this] show ?thesis by (simp add: vs)
  qed
  moreover have "filter (\<lambda>c. score_or_0 c = k) cs =
      filter (\<lambda>c. score_or_0 c = k) (filter_Boolean vs)" for k
    using sort_key_stable [of "\<lambda>c. - score_or_0 c" "- k" "filter_Boolean vs"]
    by (simp add: cs sort_by_score_def)
  ultimately show ?thesis
    unfolding positional_outcome_def using cs by blast
qed

lemma fetchComments_sort_again:
  assumes "fst (fetchComments ax p ids D M d) = Inr cs"
  shows "sort_by_score cs = cs"
proof -
  from fetchComments_sorted [OF assms]
  have "sorted (map (\<lambda>c. - score_or_0 c) cs)" by (simp add: sorted_map)
  then show ?thesis unfolding sort_by_score_def by (rule sort_key_id_if_sorted)
qed

section \<open>Lemmas about the fetcher\<close>

lemma take_drop_nth:
  assumes "i + n \<le> length xs"
  shows "take n (drop i xs) = map (\<lambda>k. xs ! k) [i ..< i + n]"
  using assms by (intro nth_equalityI) simp_all

text \<open>
  The gate reads the text of the url: a request goes out exactly when the classifier
  does not flag that text, and a flagged text gives an error result.
\<close>

lemma gate_requests:
  "snd (Fetcher_mode convert is_ip_private fetch0 payload) =
     (if truthy (is_ip_private (url payload)) then [] else [url payload])"
  by (simp add: Fetcher_mode_def Fetcher_fetch_def split: fetch_result.splits sum.splits)

lemma gate_blocks_flagged:
  assumes "truthy (is_ip_private (url payload))"
  shows "Fetcher_mode convert is_ip_private fetch0 payload =
           (\<lparr>content = ''Failed to fetch '' @ url payload @ '': ''
                        @ blocked_message (url payload),
             isError = True\<rparr>, [])"
  using assms by (simp add: Fetcher_mode_def Fetcher_fetch_def)

section \<open>Lemmas about the renderer\<close>

lemma formatCommentsAsText_empty:
  "formatCommentsAsText [] storyTitle storyId totalComments =
     ''# Hacker News Comments for Story '' @ show_int storyId @ [CHR 0x0A]
     @ ''## '' @ [CHR 0x22] @ storyTitle @ [CHR 0x22, CHR 0x0A]
     @ bar_chart @ '' Total Comments: '' @ show_int totalComments
     @ '' | Showing: 0'' @ [CHR 0x0A, CHR 0x0A]
     @ ''No comments found matching the criteria.'' @ [CHR 0x0A]"
  by (simp add: formatCommentsAsText_def)

text \<open>Every line of the body of a comment starts with the indentation of its depth.\<close>

lemma join_split_indented:
  "join ([CHR 0x0A] @ ind) (split (CHR 0x0A) s) =
     concat (map (\<lambda>c. if c = CHR 0x0A then [CHR 0x0A] @ ind else [c]) s)"
proof (induction s)
  case Nil
  then show ?case by simp
next
  case (Cons c s)
  show ?case
  proof (cases "c = CHR 0x0A")
    case True
    obtain l ls where "split (CHR 0x0A) s = l # ls"
      by (cases s; cases "split (CHR 0x0A) s"; simp split: if_splits list.splits)
    with True Cons.IH show ?thesis by simp
  next
    case False
    obtain l ls where ls: "split (CHR 0x0A) s = l # ls"
      by (cases s; cases "split (CHR 0x0A) s"; simp split: if_splits list.splits)
    with False Cons.IH show ?thesis by (cases ls) simp_all
  qed
qed

section \<open>The claims about CommentTreeBuilder\<close>

text \<open>
  C1. The claim: with \<open>minScore = M\<close>, every node of the returned tree has a score of at
  least \<open>M\<close>. The code never compares a score with \<open>minScore\<close>: for the example store and
  \<open>minScore = 6\<close> it returns the roots 1 (score 5) and 8 (no score) and the reply 3
  (score 1), all below the threshold.
\<close>

theorem minScore_not_enforced:
  "map_sum id (map summary \<circ> all_nodes)
     (fst (fetchComments demo_axios no_parse [1, 2, 7, 8, 9] 2 6 0)) =
   Inr [(2, Some 9, 0), (1, Some 5, 0), (3, Some 1, 1), (8, None, 0)]"
  by code_simp




text \<open>
  C4. In a tree returned for initial depth 0, every root has depth 0, every node has a
  depth from 0 to \<open>maxDepth - 1\<close>, and every reply is one deeper than its parent. (It
  holds for every \<open>maxDepth\<close>; below 1 the tree is empty.)
\<close>

theorem depth_invariant:
  assumes "fst (fetchComments ax p ids D M 0) = Inr cs"
  shows "(\<forall>c \<in> set cs. depth c = 0) \<and>
         (\<forall>n \<in> set (all_nodes cs). 0 \<le> depth n \<and> depth n \<le> D - 1 \<and>
            (\<forall>rs. replies n = Some rs \<longrightarrow> (\<forall>r \<in> set rs. depth r = depth n + 1)))"
proof -
  let ?Q = "\<lambda>n. 0 \<le> depth n \<and> depth n \<le> D - 1 \<and>
            (\<forall>rs. replies n = Some rs \<longrightarrow> (\<forall>r \<in> set rs. depth r = depth n + 1))"
  have "tree_all ?Q c" if "c \<in> set cs" for c
  proof (rule fetch_tree_all [where Q = ?Q and ?d0.0 = 0, OF _ _ _ assms that])
    show "(0::int) \<le> 0" by simp
  next
    fix i item t d
    assume "0 \<le> d" "d < D"
    then show "?Q (Comment item d t None)" by simp
  next
    fix i item t d ks rs
    assume "0 \<le> d" "d < D - 1"
      and "fst (fetchComments ax p (take 10 ks) D M (d + 1)) = Inr rs"
    then show "?Q (Comment item d t (Some (sort_by_score rs)))"
      by (auto simp: sort_by_score_def dest: fetch_roots_depth)
  qed
  then have "\<forall>n \<in> set (all_nodes cs). ?Q n"
    unfolding all_nodes_tree_all by blast
  moreover have "\<forall>c \<in> set cs. depth c = 0"
    using fetch_roots_depth [OF assms] by blast
  ultimately show ?thesis by blast
qed

theorem depth_invariant_witness:
  "fst (fetchComments demo_axios no_parse [1, 2, 7, 8, 9] 2 1 0) = Inr demo_tree \<and>
   list_all (\<lambda>c. depth c = 0) demo_tree \<and>
   list_all (\<lambda>n. 0 \<le> depth n \<and> depth n \<le> 2 - 1 \<and>
      (case replies n of None \<Rightarrow> True
       | Some rs \<Rightarrow> list_all (\<lambda>r. depth r = depth n + 1) rs))
     (all_nodes demo_tree)"
proof -
  have h: "fst (fetchComments demo_axios no_parse [1, 2, 7, 8, 9] 2 1 0) = Inr demo_tree"
    by (rule demo_tree_fetched)
  from depth_invariant [OF h] h
  show ?thesis by (auto simp: list_all_iff split: option.splits)
qed

text \<open>
  C5. In a returned tree the roots and every \<open>replies\<close> list are in order of
  non-increasing score, a missing score counting as 0.
\<close>

theorem siblings_sorted:
  assumes "fst (fetchComments ax p ids D M d) = Inr cs"
  shows "sorted_wrt (\<lambda>a b. score_or_0 a \<ge> score_or_0 b) cs \<and>
         (\<forall>n \<in> set (all_nodes cs). \<forall>rs. replies n = Some rs \<longrightarrow>
            sorted_wrt (\<lambda>a b. score_or_0 a \<ge> score_or_0 b) rs)"
proof -
  let ?Q = "\<lambda>n. \<forall>rs. replies n = Some rs \<longrightarrow>
            sorted_wrt (\<lambda>a b. score_or_0 a \<ge> score_or_0 b) rs"
  have "tree_all ?Q c" if "c \<in> set cs" for c
    by (rule fetch_tree_all [where Q = ?Q and ?d0.0 = d, OF _ _ _ assms that])
       (simp_all add: sorted_sort_by_score)
  then have "\<forall>n \<in> set (all_nodes cs). ?Q n"
    unfolding all_nodes_tree_all by blast
  with fetchComments_sorted [OF assms] show ?thesis by blast
qed

theorem siblings_sorted_witness:
  "fst (fetchComments demo_axios no_parse [1, 2, 7, 8, 9] 2 1 0) = Inr demo_tree \<and>
   map score_or_0 demo_tree = [9, 5, 0] \<and>
   sorted_wrt (\<lambda>a b. score_or_0 a \<ge> score_or_0 b) demo_tree \<and>
   list_all (\<lambda>n. case replies n of None \<Rightarrow> True
       | Some rs \<Rightarrow> sorted_wrt (\<lambda>a b. score_or_0 a \<ge> score_or_0 b) rs)
     (all_nodes demo_tree)"
proof -
  have h: "fst (fetchComments demo_axios no_parse [1, 2, 7, 8, 9] 2 1 0) = Inr demo_tree"
    by (rule demo_tree_fetched)
  have "map score_or_0 demo_tree = [9, 5, 0]" by code_simp
  with siblings_sorted [OF h] h
  show ?thesis by (auto simp: list_all_iff split: option.splits)
qed

text \<open>
  C6. Every node of a returned tree is of type comment and neither deleted nor dead. An
  id whose lookup throws or answers null, or whose item is of another type, deleted or
  dead, gives the value null and no rejection, and the result of the call is the result
  for the ids without it: no placeholder, and the siblings are as they would be.
\<close>

theorem only_live_comments:
  "(fst (fetchComments ax p ids D M d) = Inr cs \<longrightarrow>
      (\<forall>n \<in> set (all_nodes cs).
         item_type (spread n) = ''comment'' \<and> deleted (spread n) \<noteq> Some True
         \<and> dead (spread n) \<noteq> Some True)) \<and>
   ((case fetchItem ax i of None \<Rightarrow> True | Some item \<Rightarrow> \<not> live_comment item) \<longrightarrow>
      fst (fetchNode ax p i D M d) = Inr None \<and>
      fst (fetchComments ax p (xs @ i # ys) D M d) =
        fst (fetchComments ax p (xs @ ys) D M d))"
proof (intro conjI impI)
  assume res: "fst (fetchComments ax p ids D M d) = Inr cs"
  let ?Q = "\<lambda>n. live_comment (spread n)"
  have "tree_all ?Q c" if "c \<in> set cs" for c
    by (rule fetch_tree_all [where Q = ?Q and ?d0.0 = d, OF _ _ _ res that]) simp_all
  then have "\<forall>n \<in> set (all_nodes cs). ?Q n"
    unfolding all_nodes_tree_all by blast
  then show "\<forall>n \<in> set (all_nodes cs).
         item_type (spread n) = ''comment'' \<and> deleted (spread n) \<noteq> Some True
         \<and> dead (spread n) \<noteq> Some True"
    by (simp add: live_comment_def truthy_def)
next
  assume "case fetchItem ax i of None \<Rightarrow> True | Some item \<Rightarrow> \<not> live_comment item"
  then show "fst (fetchNode ax p i D M d) = Inr None"
    by (simp add: fetchNode_dropped)
next
  assume "case fetchItem ax i of None \<Rightarrow> True | Some item \<Rightarrow> \<not> live_comment item"
  then show "fst (fetchComments ax p (xs @ i # ys) D M d) =
        fst (fetchComments ax p (xs @ ys) D M d)"
    by (rule fetchComments_skip_dropped)
qed

theorem only_live_comments_witness:
  "fst (fetchComments demo_axios no_parse [1, 2, 7, 8, 9] 2 1 0) = Inr demo_tree \<and>
   list_all (\<lambda>n. item_type (spread n) = ''comment'' \<and> deleted (spread n) \<noteq> Some True
      \<and> dead (spread n) \<noteq> Some True) (all_nodes demo_tree) \<and>
   fetchItem demo_axios 6 = None \<and>
   fst (fetchNode demo_axios no_parse 6 2 1 0) = Inr None \<and>
   fst (fetchComments demo_axios no_parse ([1, 2] @ 6 # [7, 8, 9]) 2 1 0) =
     fst (fetchComments demo_axios no_parse ([1, 2] @ [7, 8, 9]) 2 1 0)"
proof -
  have h: "fst (fetchComments demo_axios no_parse [1, 2, 7, 8, 9] 2 1 0) = Inr demo_tree"
    by (rule demo_tree_fetched)
  have i: "fetchItem demo_axios 6 = None" by code_simp
  from only_live_comments [of demo_axios no_parse "[1, 2, 7, 8, 9]" 2 1 0 demo_tree 6
      "[1, 2]" "[7, 8, 9]"] h i
  show ?thesis by (simp add: list_all_iff)
qed

text \<open>
  C10. In a tree returned for initial depth 0, a node has a \<open>replies\<close> field exactly when
  its item has a non-empty list of kids and its depth is below \<open>maxDepth - 1\<close>; with
  \<open>maxDepth = 1\<close> no node has one.
\<close>

theorem replies_present_iff:
  assumes "fst (fetchComments ax p ids D M 0) = Inr cs"
  shows "(\<forall>n \<in> set (all_nodes cs).
            (replies n \<noteq> None) =
              ((case kids (spread n) of None \<Rightarrow> False | Some ks \<Rightarrow> length ks > 0)
               \<and> depth n < D - 1)) \<and>
         (D = 1 \<longrightarrow> (\<forall>n \<in> set (all_nodes cs). replies n = None))"
proof -
  let ?Q = "\<lambda>n. 0 \<le> depth n \<and> (replies n \<noteq> None) =
              ((case kids (spread n) of None \<Rightarrow> False | Some ks \<Rightarrow> length ks > 0)
               \<and> depth n < D - 1)"
  have "tree_all ?Q c" if "c \<in> set cs" for c
    by (rule fetch_tree_all [where Q = ?Q and ?d0.0 = 0, OF _ _ _ assms that])
       (auto split: option.splits)
  then have "\<forall>n \<in> set (all_nodes cs). ?Q n"
    unfolding all_nodes_tree_all by blast
  then show ?thesis by auto
qed

theorem replies_present_iff_witness:
  "fst (fetchComments demo_axios no_parse [1, 2, 7, 8, 9] 2 1 0) = Inr demo_tree \<and>
   list_all (\<lambda>n. (replies n \<noteq> None) =
       ((case kids (spread n) of None \<Rightarrow> False | Some ks \<Rightarrow> length ks > 0)
        \<and> depth n < 2 - 1)) (all_nodes demo_tree) \<and>
   map (\<lambda>n. (item_id (spread n), replies n \<noteq> None)) (all_nodes demo_tree) =
     [(2, False), (1, True), (3, False), (8, False)]"
proof -
  have h: "fst (fetchComments demo_axios no_parse [1, 2, 7, 8, 9] 2 1 0) = Inr demo_tree"
    by (rule demo_tree_fetched)
  have "map (\<lambda>n. (item_id (spread n), replies n \<noteq> None)) (all_nodes demo_tree) =
     [(2, False), (1, True), (3, False), (8, False)]" by code_simp
  with replies_present_iff [OF h] h
  show ?thesis by (simp add: list_all_iff)
qed

text \<open>
  C9. The result of a call does not depend on the order in which its lookups complete,
  and siblings of equal score stand in the order of the ids they were fetched for: the
  outcome of the call is positional in its ids, and every \<open>replies\<close> list in the tree is
  positional in the first ten kids of its node.
\<close>

theorem ties_keep_candidate_order:
  assumes "fst (fetchComments ax p ids D M d) = Inr cs" and "d < D" and "ids \<noteq> []"
  shows "positional_outcome ax p D M ids d cs \<and>
         (\<forall>n \<in> set (all_nodes cs). \<forall>rs. replies n = Some rs \<longrightarrow>
            (\<exists>ks. kids (spread n) = Some ks \<and>
                  positional_outcome ax p D M (take 10 ks) (depth n + 1) rs))"
proof -
  let ?Q = "\<lambda>n. \<forall>rs. replies n = Some rs \<longrightarrow>
            (\<exists>ks. kids (spread n) = Some ks \<and>
                  positional_outcome ax p D M (take 10 ks) (depth n + 1) rs)"
  have "tree_all ?Q c" if "c \<in> set cs" for c
  proof (rule fetch_tree_all [where Q = ?Q and ?d0.0 = d, OF _ _ _ assms(1) that])
    fix item :: story and t d' ks rs
    assume d': "d' < D - 1" and ks: "kids item = Some ks" "ks \<noteq> []"
      and rs: "fst (fetchComments ax p (take 10 ks) D M (d' + 1)) = Inr rs"
    from d' ks have "d' + 1 < D" "take 10 ks \<noteq> []" by auto
    from fetchComments_positional [OF rs this]
    have "positional_outcome ax p D M (take 10 ks) (d' + 1) rs" .
    with ks fetchComments_sort_again [OF rs]
    show "?Q (Comment item d' t (Some (sort_by_score rs)))" by simp
  qed simp_all
  then have "\<forall>n \<in> set (all_nodes cs). ?Q n"
    unfolding all_nodes_tree_all by blast
  with fetchComments_positional [OF assms] show ?thesis by blast
qed

theorem ties_keep_candidate_order_witness:
  "fst (fetchComments tie_axios no_parse [4, 1, 2, 3] 1 0 0) = Inr tie_tree \<and>
   (0 :: int) < 1 \<and> [4, 1, 2, 3 :: nat] \<noteq> [] \<and>
   map (\<lambda>c. (item_id (spread c), score_or_0 c)) tie_tree = [(1, 1), (3, 1), (4, 0), (2, 0)] \<and>
   positional_outcome tie_axios no_parse 1 0 [4, 1, 2, 3] 0 tie_tree"
proof -
  have h: "fst (fetchComments tie_axios no_parse [4, 1, 2, 3] 1 0 0) = Inr tie_tree"
    by code_simp
  have "map (\<lambda>c. (item_id (spread c), score_or_0 c)) tie_tree =
      [(1, 1), (3, 1), (4, 0), (2, 0)]" by code_simp
  with ties_keep_candidate_order [OF h] h show ?thesis by simp
qed

section \<open>The claims about ContentRetriever\<close>

text \<open>
  C2. The claim: a url whose host is a private or loopback address gives an error result
  and no request, in every mode. The gate hands the whole url to private-ip, not its
  host. For a classifier of IP addresses, which flags \<open>127.0.0.1\<close> and has no answer for a
  text that is no address, the url \<open>http://127.0.0.1/admin\<close> passes the gate in every mode:
  the request goes out and the body comes back.
\<close>

theorem private_url_is_fetched:
  "private_ip_standin ''127.0.0.1'' = Some True \<and>
   private_ip_standin (url loopback_admin) = None \<and>
   Fetcher_markdown Inr private_ip_standin open_network loopback_admin =
     (\<lparr>content = ''<main>answer of http://127.0.0.1/admin</main>'', isError = False\<rparr>,
      [''http://127.0.0.1/admin'']) \<and>
   map (\<lambda>mode. snd (mode private_ip_standin open_network loopback_admin))
     [Fetcher_html, Fetcher_json Inr, Fetcher_txt Inr, Fetcher_markdown Inr] =
     [[''http://127.0.0.1/admin''], [''http://127.0.0.1/admin''],
      [''http://127.0.0.1/admin''], [''http://127.0.0.1/admin'']]"
  by code_simp

text \<open>
  C7. For \<open>startIndex \<ge> 0\<close> and \<open>maxLength \<ge> 0\<close> the window is the characters of the text at
  the positions from \<open>startIndex\<close> up to, not including,
  \<open>min (startIndex + maxLength) length\<close>, and it is empty when \<open>startIndex \<ge> length\<close>.
\<close>

theorem window_is_substring:
  assumes "0 \<le> startIndex" and "0 \<le> maxLength"
  shows "applyLengthLimits text0 maxLength startIndex =
           map (\<lambda>k. text0 ! k)
             [nat startIndex ..< nat (min (startIndex + maxLength) (int (length text0)))] \<and>
         (startIndex \<ge> int (length text0) \<longrightarrow>
            applyLengthLimits text0 maxLength startIndex = [])"
proof (cases "startIndex \<ge> int (length text0)")
  case True
  then show ?thesis by (simp add: applyLengthLimits_def)
next
  case False
  define e where "e = min (startIndex + maxLength) (int (length text0))"
  from False assms have bounds: "startIndex \<le> e" "e \<le> int (length text0)"
    by (simp_all add: e_def)
  with assms have sub: "substring text0 startIndex e =
      take (nat (e - startIndex)) (drop (nat startIndex) text0)"
    by (simp add: substring_def Let_def min_def max_def)
  from bounds assms have "nat startIndex + nat (e - startIndex) \<le> length text0"
    and "nat startIndex + nat (e - startIndex) = nat e" by linarith+
  with take_drop_nth [of "nat startIndex" "nat (e - startIndex)" text0]
  have "take (nat (e - startIndex)) (drop (nat startIndex) text0) =
      map (\<lambda>k. text0 ! k) [nat startIndex ..< nat e]" by simp
  with sub False show ?thesis by (simp add: applyLengthLimits_def e_def Let_def)
qed

theorem window_is_substring_witness:
  "(0 :: int) \<le> 6 \<and> (0 :: int) \<le> 3 \<and>
   applyLengthLimits ''abcdefghij'' 3 6 = ''ghi'' \<and>
   applyLengthLimits ''abc'' 10 5 = ''''"
proof -
  have "applyLengthLimits ''abcdefghij'' 3 6 =
      map (\<lambda>k. ''abcdefghij'' ! k) [nat 6 ..< nat (min (6 + 3) (int (length ''abcdefghij'')))]"
    using window_is_substring [of 6 3 "''abcdefghij''"] by simp
  also have "\<dots> = ''ghi''" by code_simp
  finally have a: "applyLengthLimits ''abcdefghij'' 3 6 = ''ghi''" .
  have "int (length ''abc'') \<le> 5" by simp
  with window_is_substring [of 5 10 "''abc''"]
  have b: "applyLengthLimits ''abc'' 10 5 = ''''" by simp
  from a b show ?thesis by simp
qed

section \<open>The claim about ThreadRenderer\<close>

text \<open>
  C8. The claim: the body of a rendered comment has its HTML entities unescaped and its
  markup stripped. The replacements leave \<open>&amp;\<close> as it is, and they turn \<open>&lt;\<close> and
  \<open>&gt;\<close> into \<open><\<close> and \<open>>\<close> before the tags are stripped, so that the text between an
  escaped \<open><\<close> and a later escaped \<open>>\<close> is removed as if it were a tag.
\<close>

theorem escaped_text_is_eaten:
  "cleanText ''if a &lt; b and c &gt; d then x &amp; y'' = ''if a  d then x &amp; y'' \<and>
   formatComment
     (Comment ((demo_item 1 ''comment'' (Some 5) None)
                 \<lparr>item_text := Some ''if a &lt; b and c &gt; d then x &amp; y''\<rparr>)
        0 None None) 0 =
     speech_balloon @ '' **pg** (5 points)'' @ [CHR 0x0A]
     @ ''   if a  d then x &amp; y'' @ [CHR 0x0A, CHR 0x0A]"
  by code_simp

end
